theory Spec2Isabelle
  imports Complex_Main
begin

section \<open>The upload list of the FileDropzone component\<close>

text \<open>
  Source: \<^verbatim>\<open>frontend/startcop_frontend/src/components/ui/file-dropzone.tsx\<close>.
  The component keeps no state of its own: the list of files is a prop, and a new list
  is handed to the \<^verbatim>\<open>onFilesChange\<close> callback. The model returns
  the argument of that call, or \<open>None\<close> where the handler returns without
  calling it.

  A browser \<^verbatim>\<open>File\<close> is read through three of its fields: \<^verbatim>\<open>name\<close>,
  \<^verbatim>\<open>size\<close> (bytes) and \<^verbatim>\<open>type\<close> (the MIME type). The last two carry the
  suffix \<open>_f\<close> here, \<open>size\<close> being a constant of HOL; the field \<^verbatim>\<open>file\<close> of an
  uploaded file is \<open>file_u\<close> and its \<^verbatim>\<open>id\<close> is \<open>id_f\<close>, for the same reason.
\<close>

record File =
  name :: string
  size_f :: nat
  type_f :: string

datatype status = Pending | Uploading | Success | Error

text \<open>
  \<^verbatim>\<open>interface UploadedFile { file; id; progress?; status?; error? }\<close>: the
  optional fields are options, \<open>None\<close> where the object literal leaves them out.
\<close>

record UploadedFile =
  file_u :: File
  id_f :: string
  progress :: "nat option"
  status :: "status option"
  error :: "string option"

text \<open>
  What the drop library hands to \<^verbatim>\<open>onDrop\<close> for a file it rejects: the file
  and its list of errors, each with a \<^verbatim>\<open>code\<close> and a \<^verbatim>\<open>message\<close>.
\<close>

record FileError =
  code :: string
  message :: string

record FileRejection =
  rejected_file :: File
  errors :: "FileError list"

text \<open>Decimal rendering of a number inside a template literal.\<close>

definition digit_char :: "nat \<Rightarrow> char" where
  "digit_char d = ''0123456789'' ! d"

fun string_of_nat :: "nat \<Rightarrow> string" where
  "string_of_nat n =
     (if n < 10 then [digit_char n]
      else string_of_nat (n div 10) @ [digit_char (n mod 10)])"

text \<open>
  The error text of one library error (the callback of the inner \<^verbatim>\<open>map\<close> of
  \<^verbatim>\<open>onDrop\<close>). The source's first message holds the sign "less than or equal"
  (U+2264); it stands here as its three UTF-8 bytes.
\<close>

definition le_sign :: string where
  "le_sign = [char_of (0xE2 :: nat), char_of (0x89 :: nat), char_of (0xA4 :: nat)]"

definition error_text :: "nat \<Rightarrow> FileError \<Rightarrow> string" where
  "error_text maxSize e =
     (if code e = ''file-too-large''
        then ''Each file must be '' @ le_sign @ '' '' @ string_of_nat maxSize @ '' MB.''
      else if code e = ''file-invalid-type''
        then ''Only PDF or DOCX are supported.''
      else message e)"

text \<open>
  \<^verbatim>\<open>Date.now()\<close> is read once for every entry built, so the clock is a
  function from the position in the batch to the time read there.
\<close>

definition rejectedEntry :: "nat \<Rightarrow> (nat \<Rightarrow> nat) \<Rightarrow> nat \<times> FileRejection \<Rightarrow> UploadedFile" where
  "rejectedEntry maxSize now ir =
     (case ir of (i, rejected) \<Rightarrow>
        let errs = map (error_text maxSize) (errors rejected) in
        \<lparr> file_u = rejected_file rejected,
          id_f = name (rejected_file rejected) @ ''-'' @ string_of_nat (now i),
          progress = None,
          status = Some Error,
          error = (case errs of [] \<Rightarrow> None | e # _ \<Rightarrow> Some e) \<rparr>)"

definition rejectedWithErrors :: "nat \<Rightarrow> (nat \<Rightarrow> nat) \<Rightarrow> FileRejection list \<Rightarrow> UploadedFile list" where
  "rejectedWithErrors maxSize now rejectedFiles =
     map (rejectedEntry maxSize now) (enumerate 0 rejectedFiles)"

definition newEntry :: "(nat \<Rightarrow> nat) \<Rightarrow> nat \<times> File \<Rightarrow> UploadedFile" where
  "newEntry now jf =
     (case jf of (i, f) \<Rightarrow>
        \<lparr> file_u = f,
          id_f = name f @ ''-'' @ string_of_nat (now i),
          progress = Some 0,
          status = Some Pending,
          error = None \<rparr>)"

definition newFiles :: "(nat \<Rightarrow> nat) \<Rightarrow> File list \<Rightarrow> UploadedFile list" where
  "newFiles now acceptedFiles = map (newEntry now) (enumerate 0 acceptedFiles)"

text \<open>
  \<^verbatim>\<open>onDrop(acceptedFiles, rejectedFiles)\<close>, with the props it closes over
  (\<^verbatim>\<open>files\<close>, \<^verbatim>\<open>maxFiles\<close>, \<^verbatim>\<open>maxSize\<close>) and the clock as parameters.
  The three branches are the source's, in its order.
\<close>

definition onDrop ::
  "UploadedFile list \<Rightarrow> nat \<Rightarrow> nat \<Rightarrow> (nat \<Rightarrow> nat) \<Rightarrow> File list \<Rightarrow> FileRejection list
     \<Rightarrow> UploadedFile list option" where
  "onDrop files maxFiles maxSize now acceptedFiles rejectedFiles =
     (if length rejectedFiles > 0
        then Some (files @ rejectedWithErrors maxSize now rejectedFiles)
      else if length files + length acceptedFiles > maxFiles
        then None
      else Some (files @ newFiles now acceptedFiles))"

text \<open>The list the parent holds after the handler has run.\<close>

definition files_after :: "UploadedFile list \<Rightarrow> UploadedFile list option \<Rightarrow> UploadedFile list" where
  "files_after files r = (case r of None \<Rightarrow> files | Some fs \<Rightarrow> fs)"

section \<open>The report page\<close>

text \<open>
  Source: the \<^verbatim>\<open>ReportPage\<close> component (second part of
  \<^verbatim>\<open>frontend/startcop_frontend/src/pages/NewApplication.tsx\<close>). The list
  modelled here is computed from the array \<^verbatim>\<open>gaps\<close>; the array is a parameter, so
  that the computation is stated for every array and not only for the one the file holds.
\<close>

datatype risk = high | medium | low

text \<open>An element of \<^verbatim>\<open>gaps\<close>; its \<^verbatim>\<open>id\<close> is \<open>id_g\<close>.\<close>

record ReportGap =
  id_g :: string
  title :: string
  description :: string
  risk :: risk
  framework :: string
  impact :: string

text \<open>
  The list under "Key Areas Requiring Attention": two \<^verbatim>\<open>filter/slice/map\<close>
  chains, the second one behind the guard
  \<^verbatim>\<open>gaps.filter(gap => gap.risk === 'high').length < 3 &&\<close>. The source writes
  the filter for the high risk out each of the four times it uses it, and so does the
  definition. An item is the number shown in its badge and the gap whose title stands
  beside it.
\<close>

definition keyAreas :: "ReportGap list \<Rightarrow> (nat \<times> ReportGap) list" where
  "keyAreas gaps =
     map (\<lambda>(index, gap). (index + 1, gap))
       (enumerate 0 (take 3 (filter (\<lambda>gap. risk gap = high) gaps)))
     @ (if length (filter (\<lambda>gap. risk gap = high) gaps) < 3
        then map (\<lambda>(index, gap). (length (filter (\<lambda>gap. risk gap = high) gaps) + index + 1, gap))
               (enumerate 0 (take (3 - length (filter (\<lambda>gap. risk gap = high) gaps))
                               (filter (\<lambda>gap. risk gap = medium) gaps)))
        else [])"

section \<open>What the component hands to the drop library\<close>

text \<open>
  The component does not check a file itself. It calls \<^verbatim>\<open>useDropzone\<close> with its
  settings, and the library calls \<^verbatim>\<open>onDrop\<close> with the batch split into accepted
  files and rejections. The settings are the component's
  (\<^verbatim>\<open>const maxSizeBytes = maxSize * 1024 * 1024\<close>, the default values of the props
  \<^verbatim>\<open>accept\<close> and \<^verbatim>\<open>maxSize\<close>, and the object literal of lines 84 to 92);
  the library's code is not part of the repository, so its split is an argument of
  \<open>onDrop\<close> and nothing is assumed about it.
\<close>

definition maxSizeBytes :: "nat \<Rightarrow> nat" where
  "maxSizeBytes maxSize = maxSize * 1024 * 1024"

definition pdf_type :: string where
  "pdf_type = ''application/pdf''"

definition docx_type :: string where
  "docx_type = ''application/vnd.openxmlformats-officedocument.wordprocessingml.document''"

definition accept_default :: "(string \<times> string list) list" where
  "accept_default = [(pdf_type, [''.pdf'']), (docx_type, [''.docx''])]"

definition maxSize_default :: nat where
  "maxSize_default = 25"

text \<open>
  The argument of \<^verbatim>\<open>useDropzone\<close>, but for the handler itself. The difference
  \<^verbatim>\<open>maxFiles - files.length\<close> is a difference of numbers and may be negative.
\<close>

record DropzoneOptions =
  opt_accept :: "(string \<times> string list) list"
  opt_maxSize :: nat
  opt_maxFiles :: int
  opt_disabled :: bool
  noClick :: bool
  noKeyboard :: bool

definition dropzoneOptions ::
  "UploadedFile list \<Rightarrow> nat \<Rightarrow> nat \<Rightarrow> (string \<times> string list) list \<Rightarrow> bool \<Rightarrow> DropzoneOptions" where
  "dropzoneOptions files maxFiles maxSize accept disabled =
     \<lparr> opt_accept = accept,
       opt_maxSize = maxSizeBytes maxSize,
       opt_maxFiles = int maxFiles - int (length files),
       opt_disabled = (disabled \<or> length files \<ge> maxFiles),
       noClick = True,
       noKeyboard = False \<rparr>"

text \<open>
  The criterion of the specification for one file, in its own words ("rejects
  unsupported mimeType or file exceeding a configured size limit", and accepts
  otherwise), to be compared with what the handler does with a batch.
\<close>

definition acceptable_spec :: "(string \<times> string list) list \<Rightarrow> nat \<Rightarrow> File \<Rightarrow> bool" where
  "acceptable_spec accept maxSize f =
     (type_f f \<in> set (map fst accept) \<and> size_f f \<le> maxSizeBytes maxSize)"

section \<open>The Scorecard Calculator\<close>

text \<open>
  Modelled from the spec: the Scorecard Calculator (\<^verbatim>\<open>score(gaps, weights)\<close>). It
  is part of the backend (\<^verbatim>\<open>backend/src/rag\<close> in the README's directory
  listing), of which the sources hold the README only; every definition of this section
  is written from sections 3 and 4.6 of the specification.
\<close>

type_synonym category = string

record Gap =
  gapId :: string
  gapTitle :: string
  gapDescription :: string
  riskLevel :: risk
  articleRef :: string
  category :: category
  impactText :: string

record ScoreConfig =
  highPenalty :: nat
  mediumPenalty :: nat
  lowPenalty :: nat
  epsilon :: real

definition defaultConfig :: ScoreConfig where
  "defaultConfig = \<lparr> highPenalty = 30, mediumPenalty = 15, lowPenalty = 5, epsilon = 1 / 1000000 \<rparr>"

record Scorecard =
  overallScore :: real
  perCategoryScore :: "(category \<times> int) list"
  weights :: "(category \<times> real) list"

datatype config_error = ConfigurationError

text \<open>
  Modelled from the spec: the severity-weighted penalty of one Gap, missing with the
  calculator ("high=30, medium=15, low=5, configurable").
\<close>

fun penalty :: "ScoreConfig \<Rightarrow> risk \<Rightarrow> nat" where
  "penalty cfg high = highPenalty cfg"
| "penalty cfg medium = mediumPenalty cfg"
| "penalty cfg low = lowPenalty cfg"

text \<open>
  Modelled from the spec: the score of one category, missing with the calculator. "Each
  category's score starts at 100 and is decremented per Gap in that category by a
  severity-weighted penalty, floored at 0". The running value is an integer, so that
  the floor is a step of its own and not the truncation of a subtraction of naturals.
\<close>

fun decrement :: "ScoreConfig \<Rightarrow> category \<Rightarrow> int \<Rightarrow> Gap list \<Rightarrow> int" where
  "decrement cfg c s [] = s"
| "decrement cfg c s (g # gs) =
     decrement cfg c (if category g = c then s - int (penalty cfg (riskLevel g)) else s) gs"

definition categoryScore :: "ScoreConfig \<Rightarrow> Gap list \<Rightarrow> category \<Rightarrow> int" where
  "categoryScore cfg gaps c = max 0 (decrement cfg c 100 gaps)"

text \<open>
  Modelled from the spec: the validation of the weights, missing with the calculator.
  The data model (section 3) types them: "weights: mapping category to fraction summing
  to 1.0"; section 4.6 has them "validated to sum to 1.0 +- epsilon", and section 7 makes
  "invalid weights" a ConfigurationError. Valid weights are therefore fractions of the
  whole, none negative, whose sum is 1 within epsilon.
\<close>

definition weightsValid :: "real \<Rightarrow> (category \<times> real) list \<Rightarrow> bool" where
  "weightsValid eps ws =
     (list_all (\<lambda>(c, w). 0 \<le> w) ws \<and> \<bar>sum_list (map snd ws) - 1\<bar> \<le> eps)"

text \<open>
  Modelled from the spec: the function \<^verbatim>\<open>score\<close> itself (\<open>score_s\<close> here, next to
  the field \<open>score\<close> of a report). "The overall score is the weighted sum of
  per-category scores using weights (validated [...]; fails with a ConfigurationError
  otherwise)". The categories of a Scorecard are the keys of the weights, in their
  order.
\<close>

definition weightedSum :: "ScoreConfig \<Rightarrow> Gap list \<Rightarrow> (category \<times> real) list \<Rightarrow> real" where
  "weightedSum cfg gaps ws = sum_list (map (\<lambda>(c, w). w * real_of_int (categoryScore cfg gaps c)) ws)"

definition score_s :: "ScoreConfig \<Rightarrow> Gap list \<Rightarrow> (category \<times> real) list \<Rightarrow> config_error + Scorecard" where
  "score_s cfg gaps ws =
     (if weightsValid (epsilon cfg) ws
      then Inr \<lparr> overallScore = weightedSum cfg gaps ws,
                 perCategoryScore = map (\<lambda>(c, w). (c, categoryScore cfg gaps c)) ws,
                 weights = ws \<rparr>
      else Inl ConfigurationError)"

section \<open>The Chunker\<close>

text \<open>
  Modelled from the spec: the Chunker, part of the same backend and missing with it;
  every definition of this section follows sections 3 and 4.1 of the specification. A
  unit is a token or a character, so the text is a list of any type of unit. Of a Chunk
  the fields that the chunking itself sets are kept; \<open>text_c\<close> is its \<^verbatim>\<open>text\<close>.
\<close>

record 'u Chunk =
  ordinal :: nat
  text_c :: "'u list"
  charOffsetStart :: nat
  charOffsetEnd :: nat

definition mkChunk :: "nat \<Rightarrow> nat \<Rightarrow> 'u list \<Rightarrow> 'u Chunk" where
  "mkChunk ord off us =
     \<lparr> ordinal = ord, text_c = us, charOffsetStart = off, charOffsetEnd = off + length us \<rparr>"

text \<open>
  Modelled from the spec: the chunking loop. "an ordered sequence of Chunks covering the entire input
  with a configurable window size W and overlap O (0 <= O < W), so consecutive chunks
  share the last O units of the previous chunk and the first O units of the next. A
  document shorter than W yields exactly one chunk. Empty input yields an empty
  sequence." The window moves on by \<open>W - O\<close> units; the chunk that reaches the end of
  the text is the last one.
\<close>

function chunksFrom :: "nat \<Rightarrow> nat \<Rightarrow> nat \<Rightarrow> nat \<Rightarrow> 'u list \<Rightarrow> 'u Chunk list" where
  "chunksFrom W ov ord off us =
     (if us = [] then []
      else if length us \<le> W \<or> W \<le> ov then [mkChunk ord off us]
      else mkChunk ord off (take W us) # chunksFrom W ov (ord + 1) (off + (W - ov)) (drop (W - ov) us))"
  by pat_completeness auto
termination
  by (relation "measure (\<lambda>(W, ov, ord, off, us). length us)") auto

declare chunksFrom.simps [simp del]

text \<open>
  Modelled from the spec: the entry point of the Chunker. The configuration
  \<open>0 \<le> O < W\<close> is checked first; a window that is not wider than the overlap is taken
  to be a configuration error ("invalid weights/thresholds").
\<close>

definition chunker :: "nat \<Rightarrow> nat \<Rightarrow> 'u list \<Rightarrow> config_error + 'u Chunk list" where
  "chunker W ov us = (if ov < W then Inr (chunksFrom W ov 0 0 us) else Inl ConfigurationError)"

text \<open>
  Modelled from the spec: the re-concatenation "minus overlap" of the property of
  lossless chunking: the first chunk whole (nothing precedes it), every later chunk
  without its leading \<open>O\<close> units.
\<close>

fun reassemble :: "nat \<Rightarrow> 'u Chunk list \<Rightarrow> 'u list" where
  "reassemble ov [] = []"
| "reassemble ov (c # cs) = text_c c @ concat (map (\<lambda>d. drop ov (text_c d)) cs)"

section \<open>Sample values\<close>

text \<open>
  The array \<^verbatim>\<open>gaps\<close> of \<^verbatim>\<open>ReportPage\<close>, two more arrays of gaps, and a few
  files and a clock for the upload list.
\<close>

definition sampleGaps :: "ReportGap list" where
  "sampleGaps =
     [\<lparr> id_g = ''1'', title = ''Data Encryption at Rest'',
        description = ''Personal data is not encrypted when stored in databases'',
        risk = high, framework = ''GDPR'', impact = ''Potential data breach exposure'' \<rparr>,
      \<lparr> id_g = ''2'', title = ''Access Control Logging'',
        description = ''Insufficient logging of user access to sensitive systems'',
        risk = high, framework = ''ISO 27001'',
        impact = ''Unable to track unauthorized access attempts'' \<rparr>,
      \<lparr> id_g = ''3'', title = ''Data Retention Policy'',
        description = ''Missing clear data retention and deletion procedures'',
        risk = medium, framework = ''QFCRA'',
        impact = ''Non-compliance with data minimization principles'' \<rparr>,
      \<lparr> id_g = ''4'', title = ''Incident Response Plan'',
        description = ''Security incident response procedures need updating'',
        risk = medium, framework = ''ISO 27001'',
        impact = ''Delayed response to security incidents'' \<rparr>,
      \<lparr> id_g = ''5'', title = ''Privacy Impact Assessment'',
        description = ''PIA documentation is incomplete for new data processing activities'',
        risk = low, framework = ''GDPR'',
        impact = ''Insufficient privacy risk documentation'' \<rparr>]"

definition gapOf :: "string \<Rightarrow> risk \<Rightarrow> ReportGap" where
  "gapOf i r =
     \<lparr> id_g = i, title = ''Gap '' @ i, description = ''A gap'', risk = r,
       framework = ''GDPR'', impact = ''An impact'' \<rparr>"

definition mixedGaps :: "ReportGap list" where
  "mixedGaps = [gapOf ''a'' medium, gapOf ''b'' low, gapOf ''c'' high, gapOf ''d'' medium,
                gapOf ''e'' medium]"

definition manyHighGaps :: "ReportGap list" where
  "manyHighGaps = [gapOf ''a'' medium, gapOf ''b'' high, gapOf ''c'' high, gapOf ''d'' low,
                   gapOf ''e'' high, gapOf ''f'' high]"

definition plan_pdf :: File where
  "plan_pdf = \<lparr> name = ''plan.pdf'', size_f = 1048576, type_f = pdf_type \<rparr>"

definition notes_txt :: File where
  "notes_txt = \<lparr> name = ''notes.txt'', size_f = 2048, type_f = ''text/plain'' \<rparr>"

definition big_docx :: File where
  "big_docx =
     \<lparr> name = ''big.docx'', size_f = 30000000, type_f = docx_type \<rparr>"

definition notes_rejection :: FileRejection where
  "notes_rejection =
     \<lparr> rejected_file = notes_txt,
       errors = [\<lparr> code = ''file-invalid-type'', message = ''File type must be PDF or DOCX'' \<rparr>] \<rparr>"

definition big_rejection :: FileRejection where
  "big_rejection =
     \<lparr> rejected_file = big_docx,
       errors = [\<lparr> code = ''file-too-large'', message = ''File is larger than 26214400 bytes'' \<rparr>] \<rparr>"

definition clock :: "nat \<Rightarrow> nat" where
  "clock i = 1700000000000 + i"

definition listed :: "File \<Rightarrow> UploadedFile" where
  "listed f = \<lparr> file_u = f, id_f = name f @ ''-0'', progress = Some 100, status = Some Success, error = None \<rparr>"

text \<open>Gaps and weights for the Scorecard Calculator.\<close>

definition residencyGap :: Gap where
  "residencyGap =
     \<lparr> gapId = ''g1'', gapTitle = ''Data residency'',
       gapDescription = ''Data stored in Ireland and Singapore'',
       riskLevel = high, articleRef = ''2.1.1'', category = ''data-residency'',
       impactText = ''Data held outside the jurisdiction'' \<rparr>"

definition policyGap :: Gap where
  "policyGap =
     \<lparr> gapId = ''g2'', gapTitle = ''Retention policy'',
       gapDescription = ''No retention schedule'',
       riskLevel = medium, articleRef = ''1.3.2'', category = ''governance'',
       impactText = ''Documentation incomplete'' \<rparr>"

definition evenWeights :: "(category \<times> real) list" where
  "evenWeights = [(''governance'', 3 / 5), (''data-residency'', 2 / 5)]"

definition signedWeights :: "(category \<times> real) list" where
  "signedWeights = [(''governance'', 2), (''data-residency'', - 1)]"

section \<open>Properties of the upload list\<close>

lemma length_rejectedWithErrors:
  "length (rejectedWithErrors maxSize now rs) = length rs"
  by (simp add: rejectedWithErrors_def)

lemma file_rejectedWithErrors:
  "map file_u (rejectedWithErrors maxSize now rs) = map rejected_file rs"
  by (simp add: rejectedWithErrors_def rejectedEntry_def list_eq_iff_nth_eq nth_enumerate_eq Let_def)

lemma status_rejectedWithErrors:
  "map status (rejectedWithErrors maxSize now rs) = replicate (length rs) (Some Error)"
  by (simp add: rejectedWithErrors_def rejectedEntry_def list_eq_iff_nth_eq nth_enumerate_eq Let_def)

text \<open>
  C8. When a dropped batch holds at least one rejected file, \<open>onDrop\<close> appends one
  error entry per rejected file and nothing else, and returns: the outcome is the one of
  the same drop without any accepted file, so every accepted file of the batch is lost.
\<close>

theorem onDrop_rejected_discards_accepted:
  assumes "rejectedFiles \<noteq> []"
  shows "onDrop files maxFiles maxSize now acceptedFiles rejectedFiles
           = Some (files @ rejectedWithErrors maxSize now rejectedFiles)
       \<and> onDrop files maxFiles maxSize now acceptedFiles rejectedFiles
           = onDrop files maxFiles maxSize now [] rejectedFiles
       \<and> map file_u (drop (length files)
             (files_after files (onDrop files maxFiles maxSize now acceptedFiles rejectedFiles)))
           = map rejected_file rejectedFiles
       \<and> map status (drop (length files)
             (files_after files (onDrop files maxFiles maxSize now acceptedFiles rejectedFiles)))
           = replicate (length rejectedFiles) (Some Error)"
  using assms
  by (simp add: onDrop_def files_after_def file_rejectedWithErrors status_rejectedWithErrors)

theorem onDrop_rejected_discards_accepted_witness:
  "[notes_rejection] \<noteq> []
   \<and> onDrop [] 10 25 clock [plan_pdf] [notes_rejection]
       = Some [\<lparr> file_u = notes_txt, id_f = ''notes.txt-1700000000000'', progress = None,
                 status = Some Error, error = Some ''Only PDF or DOCX are supported.'' \<rparr>]"
proof -
  have h: "[notes_rejection] \<noteq> []" by simp
  have e: "rejectedWithErrors 25 clock [notes_rejection]
      = [\<lparr> file_u = notes_txt, id_f = ''notes.txt-1700000000000'', progress = None,
           status = Some Error, error = Some ''Only PDF or DOCX are supported.'' \<rparr>]"
    by (simp add: rejectedWithErrors_def rejectedEntry_def error_text_def notes_rejection_def
          notes_txt_def clock_def enumerate_eq_zip digit_char_def)
  show ?thesis
    using h onDrop_rejected_discards_accepted [OF h, of "[]" 10 25 clock "[plan_pdf]"]
    by (simp only: e append_Nil simp_thms)
qed

text \<open>
  C9. With no rejected file in the batch, when the files already listed and the
  accepted ones together exceed \<open>maxFiles\<close>, the handler returns without calling
  \<open>onFilesChange\<close>: the list stays as it was, no file of the batch is added and no
  error entry is recorded.
\<close>

theorem onDrop_over_limit_unchanged:
  assumes "rejectedFiles = []"
    and "length files + length acceptedFiles > maxFiles"
  shows "onDrop files maxFiles maxSize now acceptedFiles rejectedFiles = None
       \<and> files_after files (onDrop files maxFiles maxSize now acceptedFiles rejectedFiles) = files"
  using assms by (simp add: onDrop_def files_after_def)

theorem onDrop_over_limit_unchanged_witness:
  "length [listed plan_pdf] + length [plan_pdf, big_docx] > (2::nat)
   \<and> files_after [listed plan_pdf] (onDrop [listed plan_pdf] 2 25 clock [plan_pdf, big_docx] [])
       = [listed plan_pdf]"
proof -
  have h: "length [listed plan_pdf] + length [plan_pdf, big_docx] > (2::nat)" by simp
  show ?thesis
    using h onDrop_over_limit_unchanged [OF refl h, of 25 clock] by (simp add: files_after_def)
qed

section \<open>Properties of a dropped batch\<close>

lemma error_rejectedEntry:
  "error (rejectedEntry maxSize now (i, r))
     = (case errors r of [] \<Rightarrow> None | e # _ \<Rightarrow> Some (error_text maxSize e))"
  unfolding rejectedEntry_def Let_def
  by (cases "errors r") (simp_all del: string_of_nat.simps)

lemma error_rejectedWithErrors:
  "map error (rejectedWithErrors maxSize now rs)
     = map (\<lambda>r. case errors r of [] \<Rightarrow> None | e # _ \<Rightarrow> Some (error_text maxSize e)) rs"
  by (simp add: rejectedWithErrors_def list_eq_iff_nth_eq nth_enumerate_eq error_rejectedEntry
        del: string_of_nat.simps)

lemma file_newFiles:
  "map file_u (newFiles now fs) = fs"
  by (simp add: newFiles_def newEntry_def list_eq_iff_nth_eq nth_enumerate_eq
        del: string_of_nat.simps)

lemma status_newFiles:
  "map status (newFiles now fs) = replicate (length fs) (Some Pending)"
  by (simp add: newFiles_def newEntry_def list_eq_iff_nth_eq nth_enumerate_eq
        del: string_of_nat.simps)

lemma progress_newFiles:
  "map progress (newFiles now fs) = replicate (length fs) (Some 0)"
  by (simp add: newFiles_def newEntry_def list_eq_iff_nth_eq nth_enumerate_eq
        del: string_of_nat.simps)

lemma error_newFiles:
  "map error (newFiles now fs) = replicate (length fs) None"
  by (simp add: newFiles_def newEntry_def list_eq_iff_nth_eq nth_enumerate_eq
        del: string_of_nat.simps)




section \<open>Properties of the report page\<close>

lemma snd_numbered:
  "map snd (map (\<lambda>(index, gap). (k + index + 1, gap)) (enumerate 0 xs)) = xs"
  by (simp add: list_eq_iff_nth_eq nth_enumerate_eq)

lemma snd_numbered0:
  "map snd (map (\<lambda>(index, gap). (index + 1, gap)) (enumerate 0 xs)) = xs"
  by (simp add: list_eq_iff_nth_eq nth_enumerate_eq)

lemma fst_numbered:
  "map fst (map (\<lambda>(index, gap). (k + index + 1, gap)) (enumerate 0 xs)) = [k + 1 ..< k + 1 + length xs]"
proof (rule nth_equalityI)
  show "length (map fst (map (\<lambda>(index, gap). (k + index + 1, gap)) (enumerate 0 xs)))
      = length [k + 1 ..< k + 1 + length xs]"
    by (simp only: length_map length_enumerate length_upt add_diff_cancel_left')
next
  fix i assume "i < length (map fst (map (\<lambda>(index, gap). (k + index + 1, gap)) (enumerate 0 xs)))"
  then have i: "i < length xs" by simp
  then show "map fst (map (\<lambda>(index, gap). (k + index + 1, gap)) (enumerate 0 xs)) ! i
      = [k + 1 ..< k + 1 + length xs] ! i"
    by (simp only: nth_map length_map length_enumerate nth_enumerate_eq nth_upt add_0 fst_conv split_conv
          nat_add_left_cancel_less ac_simps)
qed

lemma fst_numbered0:
  "map fst (map (\<lambda>(index, gap). (index + 1, gap)) (enumerate 0 xs)) = [1 ..< 1 + length xs]"
  using fst_numbered [of 0 xs] by (simp only: add_0)

lemma keyAreas_gaps:
  "map snd (keyAreas gaps)
     = take 3 (filter (\<lambda>gap. risk gap = high) gaps)
       @ take (3 - length (filter (\<lambda>gap. risk gap = high) gaps))
           (filter (\<lambda>gap. risk gap = medium) gaps)"
proof (cases "length (filter (\<lambda>gap. risk gap = high) gaps) < 3")
  case True
  then show ?thesis
    unfolding keyAreas_def by (simp only: if_True map_append snd_numbered snd_numbered0)
next
  case False
  then have "take (3 - length (filter (\<lambda>gap. risk gap = high) gaps))
               (filter (\<lambda>gap. risk gap = medium) gaps) = []"
    by simp
  with False show ?thesis
    unfolding keyAreas_def by (simp only: if_False map_append snd_numbered0 list.map)
qed

lemma keyAreas_take3:
  "map snd (keyAreas gaps)
     = take 3 (filter (\<lambda>gap. risk gap = high) gaps @ filter (\<lambda>gap. risk gap = medium) gaps)"
  by (simp only: keyAreas_gaps take_append)

lemma keyAreas_length:
  "length (keyAreas gaps)
     = min 3 (length (filter (\<lambda>gap. risk gap = high) gaps)
              + length (filter (\<lambda>gap. risk gap = medium) gaps))"
proof -
  have "length (keyAreas gaps) = length (map snd (keyAreas gaps))" by simp
  also have "\<dots> = min 3 (length (filter (\<lambda>gap. risk gap = high) gaps)
                        + length (filter (\<lambda>gap. risk gap = medium) gaps))"
    unfolding keyAreas_take3 by simp
  finally show ?thesis .
qed

lemma keyAreas_numbers:
  "map fst (keyAreas gaps) = [1 ..< 1 + length (keyAreas gaps)]"
proof -
  let ?H = "filter (\<lambda>gap. risk gap = high) gaps"
  let ?h = "take 3 ?H"
  let ?m = "take (3 - length ?H) (filter (\<lambda>gap. risk gap = medium) gaps)"
  have len: "length (keyAreas gaps) = length ?h + length ?m"
    using arg_cong [OF keyAreas_gaps [of gaps], of length] by (simp only: length_map length_append)
  show ?thesis
  proof (cases "length ?H < 3")
    case True
    then have h: "length ?h = length ?H" by simp
    have "map fst (keyAreas gaps)
        = [1 ..< 1 + length ?h] @ [length ?H + 1 ..< length ?H + 1 + length ?m]"
      using True unfolding keyAreas_def by (simp only: if_True map_append fst_numbered fst_numbered0)
    also have "\<dots> = [1 ..< 1 + length ?h] @ [1 + length ?h ..< 1 + length ?h + length ?m]"
      by (simp only: h add.commute)
    also have "\<dots> = [1 ..< 1 + length ?h + length ?m]"
      using upt_add_eq_append [of 1 "1 + length ?h" "length ?m"] by (simp only: le_add1)
    finally show ?thesis by (simp only: len add.assoc)
  next
    case False
    then have m: "?m = []" by simp
    have "map fst (keyAreas gaps) = [1 ..< 1 + length ?h]"
      using False unfolding keyAreas_def
      by (simp only: if_False map_append fst_numbered0 list.map append_Nil2)
    then show ?thesis by (simp only: len m list.size add_0_right)
  qed
qed

lemma filter_nth_holds:
  "i < length (filter P xs) \<Longrightarrow> P (filter P xs ! i)"
  using nth_mem [of i "filter P xs"] by simp

lemma keyAreas_risk_at:
  assumes "i < length (keyAreas gaps)"
  shows "risk (snd (keyAreas gaps ! i))
     = (if i < length (filter (\<lambda>gap. risk gap = high) gaps) then high else medium)"
proof -
  let ?H = "filter (\<lambda>gap. risk gap = high) gaps"
  let ?M = "filter (\<lambda>gap. risk gap = medium) gaps"
  have i3: "i < 3" and iHM: "i < length ?H + length ?M"
    using assms by (simp_all add: keyAreas_length)
  have "snd (keyAreas gaps ! i) = map snd (keyAreas gaps) ! i"
    using assms by simp
  also have "\<dots> = (?H @ ?M) ! i"
    using i3 by (simp only: keyAreas_take3 nth_take)
  finally have at: "snd (keyAreas gaps ! i) = (?H @ ?M) ! i" .
  show ?thesis
  proof (cases "i < length ?H")
    case True
    then have "risk (?H ! i) = high" by (rule filter_nth_holds)
    moreover have "(?H @ ?M) ! i = ?H ! i" using True by (simp only: nth_append if_True)
    ultimately have "risk ((?H @ ?M) ! i) = high" by (simp only:)
    with True show ?thesis by (simp only: at if_True)
  next
    case False
    then have "i - length ?H < length ?M" using iHM by simp
    then have "risk (?M ! (i - length ?H)) = medium" by (rule filter_nth_holds)
    moreover have "(?H @ ?M) ! i = ?M ! (i - length ?H)"
      using False by (simp only: nth_append if_False)
    ultimately have "risk ((?H @ ?M) ! i) = medium" by (simp only:)
    with False show ?thesis by (simp only: at if_False)
  qed
qed

text \<open>
  C10. The list "Key Areas Requiring Attention" shows at most three gaps: they are the
  first three of the gaps of high risk, in the order of the array, followed by the gaps
  of medium risk, in the order of the array. So the gaps of high risk come first, gaps
  of medium risk take the places that remain when fewer than three are of high risk, and
  no gap of low risk is shown. The numbers shown run from 1 to the number of items,
  across both groups.
\<close>

theorem keyAreas_top3:
  "length (keyAreas gaps) \<le> 3
   \<and> map snd (keyAreas gaps)
       = take 3 (filter (\<lambda>gap. risk gap = high) gaps @ filter (\<lambda>gap. risk gap = medium) gaps)
   \<and> (\<forall>i < length (keyAreas gaps).
         risk (snd (keyAreas gaps ! i))
           = (if i < length (filter (\<lambda>gap. risk gap = high) gaps) then high else medium))
   \<and> (\<forall>g \<in> set (map snd (keyAreas gaps)). risk g \<noteq> low)
   \<and> map fst (keyAreas gaps) = [1 ..< 1 + length (keyAreas gaps)]"
proof -
  have a: "length (keyAreas gaps) \<le> 3" by (simp add: keyAreas_length)
  have b: "\<forall>i < length (keyAreas gaps).
         risk (snd (keyAreas gaps ! i))
           = (if i < length (filter (\<lambda>gap. risk gap = high) gaps) then high else medium)"
    using keyAreas_risk_at by blast
  have c: "\<forall>g \<in> set (map snd (keyAreas gaps)). risk g \<noteq> low"
  proof
    fix g assume "g \<in> set (map snd (keyAreas gaps))"
    then have "g \<in> set (filter (\<lambda>gap. risk gap = high) gaps)
             \<or> g \<in> set (filter (\<lambda>gap. risk gap = medium) gaps)"
      unfolding keyAreas_take3 by (auto dest!: in_set_takeD)
    then show "risk g \<noteq> low" by auto
  qed
  from a b c keyAreas_take3 [of gaps] keyAreas_numbers [of gaps] show ?thesis by blast
qed

theorem keyAreas_top3_witness:
  "keyAreas sampleGaps = [(1, sampleGaps ! 0), (2, sampleGaps ! 1), (3, sampleGaps ! 2)]
   \<and> map (risk \<circ> snd) (keyAreas sampleGaps) = [high, high, medium]
   \<and> keyAreas mixedGaps = [(1, gapOf ''c'' high), (2, gapOf ''a'' medium), (3, gapOf ''d'' medium)]
   \<and> keyAreas manyHighGaps = [(1, gapOf ''b'' high), (2, gapOf ''c'' high), (3, gapOf ''e'' high)]
   \<and> keyAreas [gapOf ''a'' low, gapOf ''b'' medium] = [(1, gapOf ''b'' medium)]"
proof -
  have e1: "keyAreas sampleGaps = [(1, sampleGaps ! 0), (2, sampleGaps ! 1), (3, sampleGaps ! 2)]"
    by (simp add: keyAreas_def sampleGaps_def)
  have e2: "keyAreas mixedGaps = [(1, gapOf ''c'' high), (2, gapOf ''a'' medium), (3, gapOf ''d'' medium)]"
    by (simp add: keyAreas_def mixedGaps_def gapOf_def)
  have e3: "keyAreas manyHighGaps = [(1, gapOf ''b'' high), (2, gapOf ''c'' high), (3, gapOf ''e'' high)]"
    by (simp add: keyAreas_def manyHighGaps_def gapOf_def)
  have e4: "keyAreas [gapOf ''a'' low, gapOf ''b'' medium] = [(1, gapOf ''b'' medium)]"
    by (simp add: keyAreas_def gapOf_def)
  have r: "map (risk \<circ> snd) (keyAreas sampleGaps) = [high, high, medium]"
    by (simp add: e1) (simp add: sampleGaps_def)
  show ?thesis
    using keyAreas_top3 [of sampleGaps] keyAreas_top3 [of mixedGaps]
      keyAreas_top3 [of manyHighGaps] keyAreas_top3 [of "[gapOf ''a'' low, gapOf ''b'' medium]"]
    by (intro conjI) (rule e1 r e2 e3 e4)+
qed

section \<open>Properties of the Scorecard Calculator\<close>

lemma decrement_eq:
  "decrement cfg c s gs
     = s - int (sum_list (map (\<lambda>g. penalty cfg (riskLevel g)) (filter (\<lambda>g. category g = c) gs)))"
  by (induction gs arbitrary: s) simp_all

lemma categoryScore_eq:
  "categoryScore cfg gaps c
     = max 0 (100 - int (sum_list (map (\<lambda>g. penalty cfg (riskLevel g)) (filter (\<lambda>g. category g = c) gaps))))"
  by (simp add: categoryScore_def decrement_eq)

lemma categoryScore_insert:
  "categoryScore cfg (xs @ g # ys) c \<le> categoryScore cfg (xs @ ys) c"
  by (auto simp add: categoryScore_eq max_def)

lemma weightedSum_mono:
  "list_all (\<lambda>(c, w). 0 \<le> w) ws \<Longrightarrow>
     weightedSum cfg (xs @ g # ys) ws \<le> weightedSum cfg (xs @ ys) ws"
  unfolding weightedSum_def
proof (induction ws)
  case Nil then show ?case by simp
next
  case (Cons a ws)
  obtain c w where a: "a = (c, w)" by (cases a)
  have w: "0 \<le> w" using Cons.prems by (simp add: a)
  have "real_of_int (categoryScore cfg (xs @ g # ys) c) \<le> real_of_int (categoryScore cfg (xs @ ys) c)"
    using categoryScore_insert [of cfg xs g ys c] by simp
  then have "w * real_of_int (categoryScore cfg (xs @ g # ys) c) \<le> w * real_of_int (categoryScore cfg (xs @ ys) c)"
    using w by (rule mult_left_mono)
  with Cons show ?case by (simp add: a)
qed



section \<open>Properties of the Chunker\<close>

lemma chunksFrom_Nil: "chunksFrom W ov ord off [] = []"
  by (simp add: chunksFrom.simps)

lemma chunksFrom_short:
  "us \<noteq> [] \<Longrightarrow> length us \<le> W \<Longrightarrow> chunksFrom W ov ord off us = [mkChunk ord off us]"
  by (simp add: chunksFrom.simps)

lemma chunksFrom_long:
  "ov < W \<Longrightarrow> W < length us \<Longrightarrow>
     chunksFrom W ov ord off us
       = mkChunk ord off (take W us) # chunksFrom W ov (ord + 1) (off + (W - ov)) (drop (W - ov) us)"
  by (subst chunksFrom.simps) auto

lemma chunksFrom_tail:
  "ov < W \<Longrightarrow> ov \<le> length us \<Longrightarrow>
     concat (map (\<lambda>d. drop ov (text_c d)) (chunksFrom W ov ord off us)) = drop ov us"
proof (induction W ov ord off us rule: chunksFrom.induct)
  case (1 W ov ord off us)
  show ?case
  proof (cases "us = [] \<or> length us \<le> W")
    case True
    then show ?thesis using "1.prems" by (cases "us = []") (auto simp add: mkChunk_def chunksFrom_Nil chunksFrom_short)
  next
    case False
    then have long: "W < length us" and ne: "us \<noteq> []" by auto
    have step: "chunksFrom W ov ord off us
        = mkChunk ord off (take W us) # chunksFrom W ov (ord + 1) (off + (W - ov)) (drop (W - ov) us)"
      using long "1.prems"(1) by (simp add: chunksFrom_long)
    have "ov \<le> length (drop (W - ov) us)" using long "1.prems"(1) by simp
    then have ih: "concat (map (\<lambda>d. drop ov (text_c d))
                      (chunksFrom W ov (ord + 1) (off + (W - ov)) (drop (W - ov) us)))
               = drop ov (drop (W - ov) us)"
      using "1.IH" ne long "1.prems"(1) by simp
    have e1: "drop ov (drop (W - ov) us) = drop W us"
      using "1.prems"(1) by simp
    have "drop ov (take W us @ drop W us)
        = drop ov (take W us) @ drop (ov - length (take W us)) (drop W us)"
      by (rule drop_append)
    moreover have "ov - length (take W us) = 0"
      using long "1.prems"(1) by simp
    ultimately have e2: "drop ov (take W us) @ drop W us = drop ov us"
      by simp
    have "concat (map (\<lambda>d. drop ov (text_c d)) (chunksFrom W ov ord off us))
        = drop ov (take W us)
          @ concat (map (\<lambda>d. drop ov (text_c d))
                      (chunksFrom W ov (ord + 1) (off + (W - ov)) (drop (W - ov) us)))"
      by (simp add: step mkChunk_def)
    also have "\<dots> = drop ov (take W us) @ drop W us"
      by (simp only: ih e1)
    also have "\<dots> = drop ov us" by (rule e2)
    finally show ?thesis .
  qed
qed

lemma reassemble_chunksFrom:
  assumes "ov < W"
  shows "reassemble ov (chunksFrom W ov ord off us) = us"
proof (cases "us = [] \<or> length us \<le> W")
  case True
  then show ?thesis by (cases "us = []") (auto simp add: mkChunk_def chunksFrom_Nil chunksFrom_short)
next
  case False
  then have long: "W < length us" and ne: "us \<noteq> []" by auto
  have step: "chunksFrom W ov ord off us
      = mkChunk ord off (take W us) # chunksFrom W ov (ord + 1) (off + (W - ov)) (drop (W - ov) us)"
    using long assms by (simp add: chunksFrom_long)
  have "ov \<le> length (drop (W - ov) us)" using long assms by simp
  then have "concat (map (\<lambda>d. drop ov (text_c d))
                      (chunksFrom W ov (ord + 1) (off + (W - ov)) (drop (W - ov) us)))
               = drop ov (drop (W - ov) us)"
    using chunksFrom_tail [OF assms] by blast
  also have "\<dots> = drop W us" using assms by simp
  finally show ?thesis
    by (simp add: step mkChunk_def)
qed

lemma chunksFrom_slices:
  "ov < W \<Longrightarrow> c \<in> set (chunksFrom W ov ord off us) \<Longrightarrow>
     off \<le> charOffsetStart c \<and> charOffsetEnd c \<le> off + length us
     \<and> text_c c = take (charOffsetEnd c - charOffsetStart c) (drop (charOffsetStart c - off) us)
     \<and> length (text_c c) \<le> W \<and> text_c c \<noteq> []"
proof (induction W ov ord off us rule: chunksFrom.induct)
  case (1 W ov ord off us)
  show ?case
  proof (cases "us = [] \<or> length us \<le> W")
    case True
    then show ?thesis using "1.prems" by (cases "us = []") (auto simp add: mkChunk_def chunksFrom_Nil chunksFrom_short)
  next
    case False
    then have long: "W < length us" and ne: "us \<noteq> []" by auto
    have step: "chunksFrom W ov ord off us
        = mkChunk ord off (take W us) # chunksFrom W ov (ord + 1) (off + (W - ov)) (drop (W - ov) us)"
      using long "1.prems"(1) by (simp add: chunksFrom_long)
    from "1.prems"(2) consider (hd) "c = mkChunk ord off (take W us)"
      | (tl) "c \<in> set (chunksFrom W ov (ord + 1) (off + (W - ov)) (drop (W - ov) us))"
      by (auto simp add: step)
    then show ?thesis
    proof cases
      case hd
      then show ?thesis using long ne "1.prems"(1) by (simp add: mkChunk_def min_def)
    next
      case tl
      let ?k = "W - ov"
      have cond: "\<not> (length us \<le> W \<or> W \<le> ov)" using long "1.prems"(1) by simp
      have ih: "off + ?k \<le> charOffsetStart c \<and> charOffsetEnd c \<le> off + ?k + length (drop ?k us)
          \<and> text_c c = take (charOffsetEnd c - charOffsetStart c) (drop (charOffsetStart c - (off + ?k)) (drop ?k us))
          \<and> length (text_c c) \<le> W \<and> text_c c \<noteq> []"
        by (rule "1.IH" [OF ne cond "1.prems"(1) tl])
      have k: "?k \<le> length us" using long by simp
      have lo: "off \<le> charOffsetStart c" using ih by simp
      have "length (drop ?k us) = length us - ?k" by simp
      then have hi: "charOffsetEnd c \<le> off + length us" using ih k by simp
      have "charOffsetStart c - (off + ?k) + ?k = charOffsetStart c - off" using ih by simp
      then have "drop (charOffsetStart c - (off + ?k)) (drop ?k us) = drop (charOffsetStart c - off) us"
        by (simp only: drop_drop)
      then have tx: "text_c c = take (charOffsetEnd c - charOffsetStart c) (drop (charOffsetStart c - off) us)"
        using ih by simp
      from lo hi tx ih show ?thesis by blast
    qed
  qed
qed

lemma chunksFrom_ordinals:
  "ov < W \<Longrightarrow> map ordinal (chunksFrom W ov ord off us) = [ord ..< ord + length (chunksFrom W ov ord off us)]"
proof (induction W ov ord off us rule: chunksFrom.induct)
  case (1 W ov ord off us)
  show ?case
  proof (cases "us = [] \<or> length us \<le> W")
    case True
    then show ?thesis by (cases "us = []") (auto simp add: mkChunk_def chunksFrom_Nil chunksFrom_short)
  next
    case False
    then have long: "W < length us" and ne: "us \<noteq> []" by auto
    have step: "chunksFrom W ov ord off us
        = mkChunk ord off (take W us) # chunksFrom W ov (ord + 1) (off + (W - ov)) (drop (W - ov) us)"
      using long "1.prems"(1) by (simp add: chunksFrom_long)
    have ih: "map ordinal (chunksFrom W ov (ord + 1) (off + (W - ov)) (drop (W - ov) us))
        = [ord + 1 ..< ord + 1 + length (chunksFrom W ov (ord + 1) (off + (W - ov)) (drop (W - ov) us))]"
      using "1.IH" ne long "1.prems"(1) by simp
    show ?thesis
      using ih by (simp add: step mkChunk_def upt_conv_Cons del: upt_Suc)
  qed
qed


lemma chunksFrom_first:
  "us \<noteq> [] \<Longrightarrow> ov < W \<Longrightarrow>
     chunksFrom W ov ord off us \<noteq> [] \<and> text_c (chunksFrom W ov ord off us ! 0) = take W us"
proof (cases "length us \<le> W")
  case True
  assume "us \<noteq> []"
  with True show ?thesis by (simp add: chunksFrom_short mkChunk_def)
next
  case False
  assume "ov < W"
  with False show ?thesis by (simp add: chunksFrom_long mkChunk_def)
qed

lemma chunksFrom_overlap:
  "ov < W \<Longrightarrow> Suc i < length (chunksFrom W ov ord off us) \<Longrightarrow>
     length (text_c (chunksFrom W ov ord off us ! i)) = W
     \<and> take ov (text_c (chunksFrom W ov ord off us ! Suc i))
         = drop (W - ov) (text_c (chunksFrom W ov ord off us ! i))"
proof (induction W ov ord off us arbitrary: i rule: chunksFrom.induct)
  case (1 W ov ord off us)
  show ?case
  proof (cases "us = [] \<or> length us \<le> W")
    case True
    then show ?thesis using "1.prems"(2)
      by (cases "us = []") (auto simp add: chunksFrom_Nil chunksFrom_short)
  next
    case False
    then have long: "W < length us" and ne: "us \<noteq> []" by auto
    let ?rest = "chunksFrom W ov (ord + 1) (off + (W - ov)) (drop (W - ov) us)"
    have step: "chunksFrom W ov ord off us = mkChunk ord off (take W us) # ?rest"
      using long "1.prems"(1) by (simp add: chunksFrom_long)
    have cond: "\<not> (length us \<le> W \<or> W \<le> ov)" using long "1.prems"(1) by simp
    show ?thesis
    proof (cases i)
      case 0
      have ne': "drop (W - ov) us \<noteq> []" using long by simp
      have first: "text_c (?rest ! 0) = take W (drop (W - ov) us)"
        using chunksFrom_first [OF ne' "1.prems"(1)] by blast
      have "take ov (take W (drop (W - ov) us)) = take ov (drop (W - ov) us)"
        using "1.prems"(1) by (simp add: min_def)
      also have "\<dots> = drop (W - ov) (take W us)"
        using "1.prems"(1) by (simp add: drop_take)
      finally have calc: "take ov (take W (drop (W - ov) us)) = drop (W - ov) (take W us)" .
      have a: "chunksFrom W ov ord off us ! 0 = mkChunk ord off (take W us)"
        and b: "chunksFrom W ov ord off us ! Suc 0 = ?rest ! 0"
        by (simp_all add: step)
      have t: "text_c (mkChunk ord off (take W us)) = take W us"
        by (simp add: mkChunk_def)
      have l: "length (take W us) = W" using long by simp
      show ?thesis by (simp only: 0 a b first t l calc simp_thms)
    next
      case (Suc j)
      have "Suc j < length ?rest" using "1.prems"(2) by (simp add: step Suc)
      then have "length (text_c (?rest ! j)) = W
          \<and> take ov (text_c (?rest ! Suc j)) = drop (W - ov) (text_c (?rest ! j))"
        by (rule "1.IH" [OF ne cond "1.prems"(1)])
      moreover have "chunksFrom W ov ord off us ! Suc j = ?rest ! j"
        and "chunksFrom W ov ord off us ! Suc (Suc j) = ?rest ! Suc j"
        by (simp_all add: step)
      ultimately show ?thesis by (simp only: Suc)
    qed
  qed
qed

text \<open>
  C7. For a window \<open>W\<close> and an overlap \<open>O < W\<close> the chunker returns a sequence of
  chunks, and the texts of the chunks, put together again without the leading \<open>O\<close>
  units of every chunk but the first, are the text of the document. The chunks cover
  the input: each is the non-empty slice of the text between its two offsets, of at
  most \<open>W\<close> units, and the ordinals count from 0. The units dropped are indeed
  overlap: every chunk but the last has \<open>W\<close> units, and the first \<open>O\<close> units of the
  chunk after it are its last \<open>O\<close> units.
\<close>

theorem chunker_lossless:
  assumes "ov < W"
  shows "chunker W ov us = Inr (chunksFrom W ov 0 0 us)
       \<and> reassemble ov (chunksFrom W ov 0 0 us) = us
       \<and> (\<forall>c \<in> set (chunksFrom W ov 0 0 us).
            text_c c = take (charOffsetEnd c - charOffsetStart c) (drop (charOffsetStart c) us)
            \<and> charOffsetEnd c \<le> length us \<and> text_c c \<noteq> [] \<and> length (text_c c) \<le> W)
       \<and> map ordinal (chunksFrom W ov 0 0 us) = [0 ..< length (chunksFrom W ov 0 0 us)]
       \<and> (\<forall>i. Suc i < length (chunksFrom W ov 0 0 us) \<longrightarrow>
            length (text_c (chunksFrom W ov 0 0 us ! i)) = W
            \<and> take ov (text_c (chunksFrom W ov 0 0 us ! Suc i))
                = drop (W - ov) (text_c (chunksFrom W ov 0 0 us ! i)))"
proof -
  have a: "chunker W ov us = Inr (chunksFrom W ov 0 0 us)"
    using assms by (simp add: chunker_def)
  have b: "reassemble ov (chunksFrom W ov 0 0 us) = us"
    using assms by (rule reassemble_chunksFrom)
  have c: "\<forall>c \<in> set (chunksFrom W ov 0 0 us).
            text_c c = take (charOffsetEnd c - charOffsetStart c) (drop (charOffsetStart c) us)
            \<and> charOffsetEnd c \<le> length us \<and> text_c c \<noteq> [] \<and> length (text_c c) \<le> W"
  proof
    fix c assume m: "c \<in> set (chunksFrom W ov 0 0 us)"
    have "0 \<le> charOffsetStart c \<and> charOffsetEnd c \<le> 0 + length us
      \<and> text_c c = take (charOffsetEnd c - charOffsetStart c) (drop (charOffsetStart c - 0) us)
      \<and> length (text_c c) \<le> W \<and> text_c c \<noteq> []"
      using assms m by (rule chunksFrom_slices)
    moreover have "charOffsetStart c - 0 = charOffsetStart c" and "0 + length us = length us"
      by simp_all
    ultimately show "text_c c = take (charOffsetEnd c - charOffsetStart c) (drop (charOffsetStart c) us)
            \<and> charOffsetEnd c \<le> length us \<and> text_c c \<noteq> [] \<and> length (text_c c) \<le> W"
      by metis
  qed
  have d: "map ordinal (chunksFrom W ov 0 0 us) = [0 ..< length (chunksFrom W ov 0 0 us)]"
    using chunksFrom_ordinals [OF assms, of 0 0 us] by simp
  have e: "\<forall>i. Suc i < length (chunksFrom W ov 0 0 us) \<longrightarrow>
            length (text_c (chunksFrom W ov 0 0 us ! i)) = W
            \<and> take ov (text_c (chunksFrom W ov 0 0 us ! Suc i))
                = drop (W - ov) (text_c (chunksFrom W ov 0 0 us ! i))"
    using chunksFrom_overlap [OF assms] by blast
  from a b c d e show ?thesis by blast
qed

theorem chunker_lossless_witness:
  "(2::nat) < 4
   \<and> chunker 4 2 ''abcdefghi''
       = Inr [\<lparr> ordinal = 0, text_c = ''abcd'', charOffsetStart = 0, charOffsetEnd = 4 \<rparr>,
              \<lparr> ordinal = 1, text_c = ''cdef'', charOffsetStart = 2, charOffsetEnd = 6 \<rparr>,
              \<lparr> ordinal = 2, text_c = ''efgh'', charOffsetStart = 4, charOffsetEnd = 8 \<rparr>,
              \<lparr> ordinal = 3, text_c = ''ghi'', charOffsetStart = 6, charOffsetEnd = 9 \<rparr>]
   \<and> reassemble 2 (chunksFrom 4 2 0 0 ''abcdefghi'') = ''abcdefghi''"
proof -
  have h: "(2::nat) < 4" by simp
  have e: "chunksFrom 4 2 0 0 ''abcdefghi''
       = [\<lparr> ordinal = 0, text_c = ''abcd'', charOffsetStart = 0, charOffsetEnd = 4 \<rparr>,
              \<lparr> ordinal = 1, text_c = ''cdef'', charOffsetStart = 2, charOffsetEnd = 6 \<rparr>,
              \<lparr> ordinal = 2, text_c = ''efgh'', charOffsetStart = 4, charOffsetEnd = 8 \<rparr>,
              \<lparr> ordinal = 3, text_c = ''ghi'', charOffsetStart = 6, charOffsetEnd = 9 \<rparr>]"
    by (simp add: chunksFrom.simps mkChunk_def)
  show ?thesis
    using h chunker_lossless [OF h, of "''abcdefghi''"] by (simp add: e)
qed

end
